theory Spec2Isabelle
  imports Complex_Main "HOL-Library.Sublist"
begin

section \<open>Comments dashboard (App.tsx): data model\<close>

text \<open>
  The component \<open>CommentsApp\<close> keeps its data in React state cells and in one
  \<open>localStorage\<close> item, \<open>commentEdits\<close>. JavaScript numbers that hold identifiers, page
  numbers and counts are integers here (\<open>int\<close>). A JavaScript string is a sequence of code
  units; the model covers the code units below 256 (\<open>char\<close>), read as Latin-1, and gives
  \<open>trim\<close>, \<open>toLowerCase\<close> and \<open>includes\<close> the meaning they have on such strings.
  The field \<open>id\<close> of a comment hides the identity function of the same name, which
  this theory does not use.
\<close>

record comment =
  id :: int
  name :: string
  email :: string
  body :: string
  postId :: int

record post =
  pid :: int
  title :: string

datatype field = Name | Body

text \<open>
  One entry of the saved edits: the object stored under a comment id, with the two
  optional properties \<open>name\<close> and \<open>body\<close> (\<open>None\<close>: the property is absent).
\<close>

record edit =
  ename :: "string option"
  ebody :: "string option"

type_synonym overlay = "int \<rightharpoonup> edit"

text \<open>
  What \<open>localStorage.getItem("commentEdits")\<close> can return, up to \<open>JSON.parse\<close>:
  \<open>null\<close> (no item), the empty string, a non-empty text that \<open>JSON.parse\<close> rejects with
  a SyntaxError, or a text that parses to a mapping of the shape the program itself writes
  with \<open>JSON.stringify\<close>. Texts that parse to a value of another shape are outside the model.
\<close>

datatype item = NoItem | EmptyText | BadText | Encoded overlay

datatype exn = SyntaxError

text \<open>
  The state cells of \<open>CommentsApp\<close>, followed by the storage item and the history of
  \<open>localStorage.setItem\<close> calls (oldest first), which records every write of the mapping.
\<close>

record state =
  comments :: "comment list"
  posts :: "post list"
  loading :: bool
  error :: "string option"
  searchTerm :: string
  currentPage :: int
  editingCell :: "(int \<times> field) option"
  editValue :: string
  storage :: item
  setItems :: "overlay list"

definition ITEMS_PER_PAGE :: int where
  "ITEMS_PER_PAGE = 10"

definition initial :: "item \<Rightarrow> state" where
  "initial it = \<lparr>comments = [], posts = [], loading = True, error = None,
     searchTerm = [], currentPage = 1, editingCell = None, editValue = [],
     storage = it, setItems = []\<rparr>"

section \<open>String primitives\<close>

text \<open>
  \<open>String.prototype.trim\<close> removes white space and line terminators from both ends. Below
  256 these are TAB, LF, VT, FF, CR, SPACE and NO-BREAK SPACE.
\<close>

definition isWhiteSpace :: "char \<Rightarrow> bool" where
  "isWhiteSpace c = (of_char c \<in> {9, 10, 11, 12, 13, 32, 160 :: nat})"

definition trimStart :: "string \<Rightarrow> string" where
  "trimStart s = dropWhile isWhiteSpace s"

definition trimEnd :: "string \<Rightarrow> string" where
  "trimEnd s = rev (dropWhile isWhiteSpace (rev s))"

definition trim :: "string \<Rightarrow> string" where
  "trim s = trimEnd (trimStart s)"

text \<open>
  \<open>String.prototype.toLowerCase\<close>: below 256 the letters with a lower-case partner are
  A to Z and U+00C0 to U+00DE without the multiplication sign U+00D7; the partner is 32
  code units further on.
\<close>

definition isUpperCase :: "char \<Rightarrow> bool" where
  "isUpperCase c = (let n = (of_char c :: nat) in
     (65 \<le> n \<and> n \<le> 90) \<or> (192 \<le> n \<and> n \<le> 222 \<and> n \<noteq> 215))"

definition lowerChar :: "char \<Rightarrow> char" where
  "lowerChar c = (if isUpperCase c then char_of (of_char c + (32 :: nat)) else c)"

definition toLowerCase :: "string \<Rightarrow> string" where
  "toLowerCase s = map lowerChar s"

text \<open>\<open>s.includes(t)\<close>: \<open>t\<close> occurs in \<open>s\<close> at some position.\<close>

fun startsWith :: "string \<Rightarrow> string \<Rightarrow> bool" where
  "startsWith s [] = True"
| "startsWith [] (y # t) = False"
| "startsWith (x # s) (y # t) = (x = y \<and> startsWith s t)"

fun includesStr :: "string \<Rightarrow> string \<Rightarrow> bool" where
  "includesStr [] t = startsWith [] t"
| "includesStr (x # s) t = (startsWith (x # s) t \<or> includesStr s t)"

section \<open>Merging saved edits onto fetched comments\<close>

text \<open>
  \<open>a || b\<close> on strings: \<open>a\<close> unless it is undefined or the empty string, both falsy.
\<close>

definition orElse :: "string option \<Rightarrow> string \<Rightarrow> string" where
  "orElse a b = (case a of None \<Rightarrow> b | Some v \<Rightarrow> if v = [] then b else v)"

text \<open>The callback of \<open>commentsData.map\<close> in \<open>fetchData\<close>.\<close>

definition applyEdit :: "overlay \<Rightarrow> comment \<Rightarrow> comment" where
  "applyEdit edits c =
     (case edits (id c) of
        Some savedEdit \<Rightarrow>
          c\<lparr>name := orElse (ename savedEdit) (name c),
            body := orElse (ebody savedEdit) (body c)\<rparr>
      | None \<Rightarrow> c)"

definition commentsWithEdits :: "comment list \<Rightarrow> overlay \<Rightarrow> comment list" where
  "commentsWithEdits commentsData edits = map (applyEdit edits) commentsData"

section \<open>The startup fetch\<close>

text \<open>
  The outcome of one \<open>fetch\<close>: the promise rejects, or it resolves to a response with its
  \<open>ok\<close> flag and with what \<open>response.json()\<close> gives (\<open>None\<close>: the body does not parse).
\<close>

datatype 'a response = Rejected | Response bool "'a option"

definition errorMessage :: string where
  "errorMessage = ''Failed to load data. Please try again.''"

text \<open>The \<open>catch\<close> and \<open>finally\<close> blocks of \<open>fetchData\<close>.\<close>

definition failed :: "state \<Rightarrow> state" where
  "failed s = s\<lparr>error := Some errorMessage, loading := False\<rparr>"

text \<open>
  \<open>savedEdits ? JSON.parse(savedEdits) : {}\<close>: \<open>null\<close> and the empty string are falsy and
  give the empty mapping; a text that does not parse throws.
\<close>

definition parseSaved :: "item \<Rightarrow> exn + overlay" where
  "parseSaved it =
     (case it of
        NoItem \<Rightarrow> Inr Map.empty
      | EmptyText \<Rightarrow> Inr Map.empty
      | BadText \<Rightarrow> Inl SyntaxError
      | Encoded ov \<Rightarrow> Inr ov)"

definition fetchData :: "state \<Rightarrow> comment list response \<Rightarrow> post list response \<Rightarrow> state" where
  "fetchData s0 commentsFetch postsFetch =
     (let s = s0\<lparr>loading := True\<rparr> in
      case commentsFetch of
        Rejected \<Rightarrow> failed s
      | Response commentsOk commentsJson \<Rightarrow>
         (case postsFetch of
            Rejected \<Rightarrow> failed s
          | Response postsOk postsJson \<Rightarrow>
              if \<not> commentsOk \<or> \<not> postsOk then failed s
              else
               (case commentsJson of
                  None \<Rightarrow> failed s
                | Some commentsData \<Rightarrow>
                   (case postsJson of
                      None \<Rightarrow> failed s
                    | Some postsData \<Rightarrow>
                       (case parseSaved (storage s) of
                          Inl e \<Rightarrow> failed s
                        | Inr edits \<Rightarrow>
                            s\<lparr>comments := commentsWithEdits commentsData edits,
                              posts := postsData,
                              loading := False\<rparr>)))))"

section \<open>Filter, pages and navigation\<close>

definition matches :: "string \<Rightarrow> comment \<Rightarrow> bool" where
  "matches searchLower c =
     (includesStr (toLowerCase (email c)) searchLower \<or>
      includesStr (toLowerCase (name c)) searchLower \<or>
      includesStr (toLowerCase (body c)) searchLower)"

definition filteredComments :: "comment list \<Rightarrow> string \<Rightarrow> comment list" where
  "filteredComments cs t =
     (if trim t = [] then cs
      else
        (let searchLower = toLowerCase t in filter (matches searchLower) cs))"

text \<open>
  \<open>Array.prototype.slice(start, end)\<close>: a negative bound counts from the end, and both
  bounds are clamped to the length.
\<close>

definition slice :: "'a list \<Rightarrow> int \<Rightarrow> int \<Rightarrow> 'a list" where
  "slice xs start fin =
     (let len = int (length xs);
          k = (if start < 0 then max (len + start) 0 else min start len);
          final = (if fin < 0 then max (len + fin) 0 else min fin len)
      in take (nat (final - k)) (drop (nat k) xs))"

definition paginatedComments :: "comment list \<Rightarrow> int \<Rightarrow> comment list" where
  "paginatedComments filtered page =
     (let startIndex = (page - 1) * ITEMS_PER_PAGE
      in slice filtered startIndex (startIndex + ITEMS_PER_PAGE))"

text \<open>\<open>Math.ceil(filteredComments.length / ITEMS_PER_PAGE)\<close>.\<close>

definition totalPages :: "comment list \<Rightarrow> int" where
  "totalPages filtered = \<lceil>real (length filtered) / real_of_int ITEMS_PER_PAGE\<rceil>"

text \<open>
  The search box's \<open>onChange\<close> with the effect that depends on \<open>searchTerm\<close>: the effect
  runs when the stored term has changed.
\<close>

definition setSearchTerm :: "state \<Rightarrow> string \<Rightarrow> state" where
  "setSearchTerm s t =
     (if t = searchTerm s then s else s\<lparr>searchTerm := t, currentPage := 1\<rparr>)"

definition goToPage :: "state \<Rightarrow> int \<Rightarrow> state" where
  "goToPage s page =
     s\<lparr>currentPage :=
         max 1 (min page (totalPages (filteredComments (comments s) (searchTerm s))))\<rparr>"

text \<open>
  The window of page buttons: \<open>startPage\<close> and \<open>endPage\<close> as the immediately invoked
  function computes them, the page numbers of the buttons it returns, and the page
  numbers of the buttons that are rendered: the pagination controls, and the function
  call inside them, sit under the guard \<open>totalPages > 1\<close>.
\<close>

definition pageWindow :: "int \<Rightarrow> int \<Rightarrow> int \<times> int" where
  "pageWindow total_pages current =
     (let maxVisiblePages = 5 in
      if total_pages > maxVisiblePages then
        if current \<le> 3 then (1, maxVisiblePages)
        else if current \<ge> total_pages - 2 then (total_pages - maxVisiblePages + 1, total_pages)
        else (current - 2, current + 2)
      else (1, min maxVisiblePages total_pages))"

definition windowButtons :: "int \<Rightarrow> int \<Rightarrow> int list" where
  "windowButtons total_pages current =
     (case pageWindow total_pages current of
        (startPage, endPage) \<Rightarrow>
          map (\<lambda>i. startPage + int i) [0 ..< nat (endPage - startPage + 1)])"

definition pageButtons :: "int \<Rightarrow> int \<Rightarrow> int list" where
  "pageButtons total_pages current =
     (if total_pages > 1 then windowButtons total_pages current else [])"

section \<open>Saving an edit\<close>

definition setField :: "field \<Rightarrow> string \<Rightarrow> comment \<Rightarrow> comment" where
  "setField f v c = (case f of Name \<Rightarrow> c\<lparr>name := v\<rparr> | Body \<Rightarrow> c\<lparr>body := v\<rparr>)"

text \<open>\<open>{ ...savedEdits[id], [field]: value }\<close>; spreading \<open>undefined\<close> adds nothing.\<close>

definition setEditField :: "field \<Rightarrow> string \<Rightarrow> edit option \<Rightarrow> edit" where
  "setEditField f v prior =
     (let e = (case prior of None \<Rightarrow> \<lparr>ename = None, ebody = None\<rparr> | Some e \<Rightarrow> e)
      in case f of Name \<Rightarrow> e\<lparr>ename := Some v\<rparr> | Body \<Rightarrow> e\<lparr>ebody := Some v\<rparr>)"

text \<open>
  \<open>JSON.parse(localStorage.getItem("commentEdits") || "{}")\<close> in \<open>saveEdit\<close>.
\<close>

definition readSaved :: "item \<Rightarrow> exn + overlay" where
  "readSaved it =
     (case it of
        NoItem \<Rightarrow> Inr Map.empty
      | EmptyText \<Rightarrow> Inr Map.empty
      | BadText \<Rightarrow> Inl SyntaxError
      | Encoded ov \<Rightarrow> Inr ov)"

text \<open>
  The updater given to \<open>setComments\<close>: \<open>prev.map\<close> with a callback that, at every comment
  with the given id, reads the item, sets the field of the entry and writes the whole
  mapping back. The storage item and the history of writes are threaded through the
  traversal; an exception of \<open>JSON.parse\<close> ends it.
\<close>

fun saveMap :: "int \<Rightarrow> field \<Rightarrow> string \<Rightarrow> comment list \<Rightarrow> item \<times> overlay list
                \<Rightarrow> exn + (comment list \<times> item \<times> overlay list)" where
  "saveMap i f v [] st = Inr ([], st)"
| "saveMap i f v (c # cs) (it, writes) =
     (if id c = i then
        (case readSaved it of
           Inl e \<Rightarrow> Inl e
         | Inr savedEdits \<Rightarrow>
            (let savedEdits' = savedEdits(i \<mapsto> setEditField f v (savedEdits i)) in
             case saveMap i f v cs (Encoded savedEdits', writes @ [savedEdits']) of
               Inl e \<Rightarrow> Inl e
             | Inr (cs', st') \<Rightarrow> Inr (setField f v c # cs', st')))
      else
        (case saveMap i f v cs (it, writes) of
           Inl e \<Rightarrow> Inl e
         | Inr (cs', st') \<Rightarrow> Inr (c # cs', st')))"

definition saveEdit :: "state \<Rightarrow> int \<Rightarrow> field \<Rightarrow> exn + state" where
  "saveEdit s i f =
     (if trim (editValue s) = [] then Inr s
      else
        (case saveMap i f (trim (editValue s)) (comments s) (storage s, setItems s) of
           Inl e \<Rightarrow> Inl e
         | Inr (cs', it', writes') \<Rightarrow>
             Inr (s\<lparr>comments := cs', storage := it', setItems := writes',
                    editingCell := None, editValue := []\<rparr>)))"

text \<open>A reload mounts the component again: initial state cells, the storage as it is.\<close>

definition reload :: "state \<Rightarrow> comment list response \<Rightarrow> post list response \<Rightarrow> state" where
  "reload s commentsFetch postsFetch = fetchData (initial (storage s)) commentsFetch postsFetch"

section \<open>The other handlers and the reachable states\<close>

definition startEdit :: "state \<Rightarrow> int \<Rightarrow> field \<Rightarrow> string \<Rightarrow> state" where
  "startEdit s i f currentValue = s\<lparr>editingCell := Some (i, f), editValue := currentValue\<rparr>"

definition cancelEdit :: "state \<Rightarrow> state" where
  "cancelEdit s = s\<lparr>editingCell := None, editValue := []\<rparr>"

text \<open>The \<open>onChange\<close> of the edit box: \<open>setEditValue(e.target.value)\<close>.\<close>

definition setEditValue :: "state \<Rightarrow> string \<Rightarrow> state" where
  "setEditValue s v = s\<lparr>editValue := v\<rparr>"

text \<open>
  The states the component can be in: it mounts with the initial state cells over whatever
  the storage holds, the mount effect runs \<open>fetchData\<close> once, and from then on each event
  runs one handler. \<open>localStorage\<close> is written by \<open>saveEdit\<close> only; an exception in
  \<open>saveEdit\<close> leaves no further state.
\<close>

inductive reachable :: "state \<Rightarrow> bool" where
  mounted: "reachable (initial it)"
| loaded: "reachable (fetchData (initial it) commentsFetch postsFetch)"
| reloaded: "reachable s \<Longrightarrow> reachable (reload s commentsFetch postsFetch)"
| searched: "reachable s \<Longrightarrow> reachable (setSearchTerm s t)"
| paged: "reachable s \<Longrightarrow> reachable (goToPage s page)"
| started: "reachable s \<Longrightarrow> reachable (startEdit s i f currentValue)"
| typed: "reachable s \<Longrightarrow> reachable (setEditValue s v)"
| cancelled: "reachable s \<Longrightarrow> reachable (cancelEdit s)"
| saved: "reachable s \<Longrightarrow> saveEdit s i f = Inr s' \<Longrightarrow> reachable s'"

section \<open>Auxiliary facts\<close>

subsection \<open>Strings\<close>

lemma startsWith_iff: "startsWith s t \<longleftrightarrow> (\<exists>q. s = t @ q)"
  by (induction s t rule: startsWith.induct) auto

lemma includesStr_iff: "includesStr s t \<longleftrightarrow> (\<exists>p q. s = p @ t @ q)"
proof (induction s)
  case Nil
  show ?case by (simp add: startsWith_iff)
next
  case (Cons x s)
  show ?case
  proof
    assume "includesStr (x # s) t"
    then consider "startsWith (x # s) t" | "includesStr s t" by auto
    then show "\<exists>p q. x # s = p @ t @ q"
    proof cases
      case 1
      then obtain q where "x # s = t @ q" by (auto simp: startsWith_iff)
      then have "x # s = [] @ t @ q" by simp
      then show ?thesis by blast
    next
      case 2
      then obtain p q where "s = p @ t @ q" using Cons.IH by blast
      then have "x # s = (x # p) @ t @ q" by simp
      then show ?thesis by blast
    qed
  next
    assume "\<exists>p q. x # s = p @ t @ q"
    then obtain p q where pq: "x # s = p @ t @ q" by blast
    show "includesStr (x # s) t"
    proof (cases p)
      case Nil
      with pq have "startsWith (x # s) t" by (auto simp: startsWith_iff)
      then show ?thesis by simp
    next
      case (Cons y p')
      with pq have "s = p' @ t @ q" by simp
      then have "includesStr s t" using Cons.IH by blast
      then show ?thesis by simp
    qed
  qed
qed

lemma matches_iff:
  "matches u c \<longleftrightarrow>
     (\<exists>p q. toLowerCase (email c) = p @ u @ q \<or> toLowerCase (name c) = p @ u @ q \<or>
            toLowerCase (body c) = p @ u @ q)"
  unfolding matches_def includesStr_iff by blast

lemma ws_not_upper: "isWhiteSpace c \<Longrightarrow> \<not> isUpperCase c"
  by (auto simp: isWhiteSpace_def isUpperCase_def)

lemma lowerChar_ws: "isWhiteSpace (lowerChar c) = isWhiteSpace c"
  by (auto simp: isWhiteSpace_def isUpperCase_def lowerChar_def Let_def)

lemma toLowerCase_ws: "\<forall>c\<in>set l. isWhiteSpace c \<Longrightarrow> toLowerCase l = l"
  by (induction l) (auto simp: toLowerCase_def lowerChar_def ws_not_upper)

lemma toLowerCase_append: "toLowerCase (a @ b) = toLowerCase a @ toLowerCase b"
  by (simp add: toLowerCase_def)

lemma trim_Nil_iff: "trim t = [] \<longleftrightarrow> (\<forall>c\<in>set t. isWhiteSpace c)"
proof -
  have "trim t = [] \<longleftrightarrow> (\<forall>c\<in>set (dropWhile isWhiteSpace t). isWhiteSpace c)"
    by (simp add: trim_def trimEnd_def trimStart_def dropWhile_eq_Nil_conv)
  also have "\<dots> \<longleftrightarrow> (\<forall>c\<in>set t. isWhiteSpace c)"
    by (induction t) auto
  finally show ?thesis .
qed

lemma trim_toLowerCase_Nil: "trim (toLowerCase t) = [] \<longleftrightarrow> trim t = []"
  by (simp add: trim_Nil_iff toLowerCase_def lowerChar_ws)

lemma trim_decomp:
  "\<exists>l r. t = l @ trim t @ r \<and> (\<forall>c\<in>set l. isWhiteSpace c) \<and> (\<forall>c\<in>set r. isWhiteSpace c)"
proof -
  define l where "l = takeWhile isWhiteSpace t"
  define u where "u = dropWhile isWhiteSpace t"
  define r where "r = rev (takeWhile isWhiteSpace (rev u))"
  have "t = l @ u" by (simp add: l_def u_def)
  moreover have "u = rev (takeWhile isWhiteSpace (rev u) @ dropWhile isWhiteSpace (rev u))"
    by (simp only: takeWhile_dropWhile_id rev_rev_ident)
  then have "u = rev (dropWhile isWhiteSpace (rev u)) @ r"
    by (simp only: rev_append r_def)
  then have "u = trim t @ r"
    by (simp only: trim_def trimEnd_def trimStart_def u_def)
  moreover have "\<forall>c\<in>set l. isWhiteSpace c"
    by (auto simp: l_def dest: set_takeWhileD)
  moreover have "\<forall>c\<in>set r. isWhiteSpace c"
    by (auto simp: r_def dest: set_takeWhileD)
  ultimately show ?thesis by auto
qed

lemma filtered_cong:
  assumes "toLowerCase t = toLowerCase u"
  shows "filteredComments cs t = filteredComments cs u"
proof -
  have "trim t = [] \<longleftrightarrow> trim u = []"
    using trim_toLowerCase_Nil[of t] trim_toLowerCase_Nil[of u] assms by simp
  then show ?thesis using assms by (simp add: filteredComments_def)
qed

subsection \<open>Pages\<close>

lemma totalPages_div: "totalPages fs = (int (length fs) + 9) div 10"
proof -
  have "real (length fs) / real_of_int ITEMS_PER_PAGE
          = real_of_int (int (length fs)) / real_of_int 10"
    by (simp add: ITEMS_PER_PAGE_def)
  then have "totalPages fs = - (- int (length fs) div 10)"
    unfolding totalPages_def by (simp only: ceiling_divide_eq_div)
  also have "\<dots> = (int (length fs) + 9) div 10"
    by presburger
  finally show ?thesis .
qed

lemma slice_nonneg:
  "0 \<le> a \<Longrightarrow> a \<le> b \<Longrightarrow> slice xs a b = take (nat (b - a)) (drop (nat a) xs)"
  by (auto simp: slice_def Let_def min_def)

lemma paginated_take_drop:
  "1 \<le> p \<Longrightarrow> paginatedComments fs p = take 10 (drop (10 * nat (p - 1)) fs)"
proof -
  assume p: "1 \<le> p"
  then have e: "nat ((p - 1) * 10) = 10 * nat (p - 1)" by (simp add: nat_mult_distrib)
  have "paginatedComments fs p = slice fs ((p - 1) * 10) ((p - 1) * 10 + 10)"
    by (simp add: paginatedComments_def ITEMS_PER_PAGE_def Let_def)
  also have "\<dots> = take (nat 10) (drop (nat ((p - 1) * 10)) fs)"
    using p by (subst slice_nonneg) simp_all
  finally show ?thesis using e by simp
qed

lemma take_drop_nth:
  "take n (drop k xs) = map ((!) xs) [min k (length xs) ..< min (k + n) (length xs)]"
proof (rule nth_equalityI)
  show "length (take n (drop k xs)) = length (map ((!) xs) [min k (length xs) ..< min (k + n) (length xs)])"
    by (auto simp: min_def)
next
  fix i assume "i < length (take n (drop k xs))"
  then have i: "i < n" "k + i < length xs" by auto
  then have "i < min (k + n) (length xs) - min k (length xs)" by arith
  then have "map ((!) xs) [min k (length xs) ..< min (k + n) (length xs)] ! i = xs ! (min k (length xs) + i)"
    by (rule nth_map_upt)
  also have "\<dots> = xs ! (k + i)" using i by (simp add: min_def)
  finally show "take n (drop k xs) ! i = map ((!) xs) [min k (length xs) ..< min (k + n) (length xs)] ! i"
    using i by simp
qed

lemma upto_as_upt: "[1..int n] = map (\<lambda>k. int k + 1) [0..<n]"
proof (induction n)
  case 0 show ?case by simp
next
  case (Suc n)
  have "[1..int (Suc n)] = [1..int n] @ [int n + 1]"
    using upto_rec2[of 1 "int (Suc n)"] by (simp add: add.commute)
  then show ?case using Suc by simp
qed

lemma upto_shift: "map (\<lambda>i. a + int i) [0..<n] = [a..a + int n - 1]"
proof (induction n)
  case 0 show ?case by simp
next
  case (Suc n)
  have "[a..a + int (Suc n) - 1] = [a..a + int n - 1] @ [a + int n]"
    using upto_rec2[of a "a + int (Suc n) - 1"] by simp
  then show ?case using Suc by simp
qed

lemma concat_pages_nat:
  "concat (map (\<lambda>k. take 10 (drop (10 * k) xs)) [0..<n]) = take (10 * n) xs"
  by (induction n) (simp_all add: take_add[symmetric] add.commute)

lemma concat_pages:
  "concat (map (paginatedComments fs) [1..int n]) = take (10 * n) fs"
proof -
  have "map (paginatedComments fs) [1..int n] = map (\<lambda>k. take 10 (drop (10 * k) fs)) [0..<n]"
    by (simp add: upto_as_upt paginated_take_drop o_def)
  then show ?thesis by (simp add: concat_pages_nat)
qed

lemma concat_all_pages:
  assumes "totalPages fs \<le> n"
  shows "concat (map (paginatedComments fs) [1..n]) = fs"
proof -
  have n0: "0 \<le> n" using assms by (simp add: totalPages_div)
  have "length fs \<le> 10 * nat n" using assms by (simp add: totalPages_div)
  moreover have "concat (map (paginatedComments fs) [1..int (nat n)]) = take (10 * nat n) fs"
    by (rule concat_pages)
  ultimately show ?thesis using n0 by simp
qed

subsection \<open>Fetching and saving\<close>

lemma commentsWithEdits_empty: "commentsWithEdits cs Map.empty = cs"
  by (induction cs) (simp_all add: commentsWithEdits_def applyEdit_def)

lemma fetchData_ok:
  "fetchData s (Response True (Some cd)) (Response True (Some pd)) =
     (case parseSaved (storage s) of
        Inl e \<Rightarrow> s\<lparr>loading := False, error := Some errorMessage\<rparr>
      | Inr edits \<Rightarrow> s\<lparr>comments := commentsWithEdits cd edits, posts := pd, loading := False\<rparr>)"
  by (simp add: fetchData_def failed_def Let_def split: sum.splits)

lemma setEditField_idem:
  "setEditField f v (Some (setEditField f v prior)) = setEditField f v prior"
  by (cases f; cases prior) (simp_all add: setEditField_def)

lemma saveMap_ok:
  assumes "readSaved it = Inr ov"
  shows "saveMap i f v cs (it, w) =
     Inr (map (\<lambda>c. if id c = i then setField f v c else c) cs,
          (if \<exists>c\<in>set cs. id c = i then Encoded (ov(i \<mapsto> setEditField f v (ov i))) else it),
          w @ replicate (length (filter (\<lambda>c. id c = i) cs)) (ov(i \<mapsto> setEditField f v (ov i))))"
  using assms
proof (induction cs arbitrary: it w ov)
  case Nil
  show ?case by simp
next
  case (Cons c cs)
  show ?case
  proof (cases "id c = i")
    case False
    then show ?thesis using Cons.IH[OF Cons.prems, of w] by simp
  next
    case True
    define ov' where "ov' = ov(i \<mapsto> setEditField f v (ov i))"
    have r: "readSaved (Encoded ov') = Inr ov'" by (simp add: readSaved_def)
    have fixpt: "ov'(i \<mapsto> setEditField f v (ov' i)) = ov'"
      by (simp add: ov'_def setEditField_idem)
    have "saveMap i f v cs (Encoded ov', w @ [ov']) =
          Inr (map (\<lambda>c. if id c = i then setField f v c else c) cs,
               Encoded ov',
               (w @ [ov']) @ replicate (length (filter (\<lambda>c. id c = i) cs)) ov')"
      using Cons.IH[OF r, of "w @ [ov']"] by (simp add: fixpt)
    then show ?thesis using True Cons.prems
      by (simp add: ov'_def[symmetric] Let_def replicate_app_Cons_same)
  qed
qed

lemma applyEdit_saved:
  assumes "v \<noteq> []" "id c = i"
  shows "applyEdit (ov(i \<mapsto> setEditField f v (ov i))) c =
         (case f of
            Name \<Rightarrow> c\<lparr>name := v,
                      body := orElse (case ov i of None \<Rightarrow> None | Some e \<Rightarrow> ebody e) (body c)\<rparr>
          | Body \<Rightarrow> c\<lparr>name := orElse (case ov i of None \<Rightarrow> None | Some e \<Rightarrow> ename e) (name c),
                      body := v\<rparr>)"
  using assms
  by (cases f; cases "ov i") (simp_all add: applyEdit_def setEditField_def orElse_def)

lemma count_pos: "i \<in> f ` set xs \<Longrightarrow> 0 < length (filter (\<lambda>c. f c = i) xs)"
  by (induction xs) auto

lemma count_distinct:
  "distinct (map f xs) \<Longrightarrow> i \<in> f ` set xs \<Longrightarrow> length (filter (\<lambda>c. f c = i) xs) = 1"
  by (induction xs) (auto simp: filter_empty_conv image_iff)

lemma saveEdit_readable:
  assumes present: "i \<in> id ` set (comments s)"
      and nonempty: "trim (editValue s) \<noteq> []"
      and readable: "readSaved (storage s) = Inr ov"
      and fetched: "k < length cd" "id (cd ! k) = i"
  shows "let v = trim (editValue s);
             prior = ov i;
             entry = setEditField f v prior;
             ov' = ov(i \<mapsto> entry);
             n = length (filter (\<lambda>c. id c = i) (comments s));
             s' = s\<lparr>comments := map (\<lambda>c. if id c = i then setField f v c else c) (comments s),
                    storage := Encoded ov',
                    setItems := setItems s @ replicate n ov',
                    editingCell := None, editValue := []\<rparr>;
             c' = comments (reload s' (Response True (Some cd)) (Response True (Some pd))) ! k
         in saveEdit s i f = Inr s' \<and>
            0 < n \<and> (distinct (map id (comments s)) \<longrightarrow> n = 1) \<and>
            (f = Name \<longrightarrow> ename entry = Some v \<and>
               ebody entry = (case prior of None \<Rightarrow> None | Some e \<Rightarrow> ebody e)) \<and>
            (f = Body \<longrightarrow> ebody entry = Some v \<and>
               ename entry = (case prior of None \<Rightarrow> None | Some e \<Rightarrow> ename e)) \<and>
            (j \<noteq> i \<longrightarrow> ov' j = ov j) \<and>
            id c' = i \<and>
            (f = Name \<longrightarrow> name c' = v \<and>
               body c' = orElse (case prior of None \<Rightarrow> None | Some e \<Rightarrow> ebody e) (body (cd ! k))) \<and>
            (f = Body \<longrightarrow> body c' = v \<and>
               name c' = orElse (case prior of None \<Rightarrow> None | Some e \<Rightarrow> ename e) (name (cd ! k)))"
proof -
  define v where "v = trim (editValue s)"
  define ov' where "ov' = ov(i \<mapsto> setEditField f v (ov i))"
  define n where "n = length (filter (\<lambda>c. id c = i) (comments s))"
  define s' where "s' = s\<lparr>comments := map (\<lambda>c. if id c = i then setField f v c else c) (comments s),
                    storage := Encoded ov',
                    setItems := setItems s @ replicate n ov',
                    editingCell := None, editValue := []\<rparr>"
  define c' where "c' = comments (reload s' (Response True (Some cd)) (Response True (Some pd))) ! k"
  have v: "v \<noteq> []" using nonempty by (simp add: v_def)
  have ex: "\<exists>c\<in>set (comments s). id c = i" using present by auto
  have save: "saveEdit s i f = Inr s'"
    using nonempty ex saveMap_ok[OF readable, of i f v "comments s" "setItems s"]
    by (simp add: saveEdit_def v_def[symmetric] ov'_def[symmetric] n_def[symmetric] s'_def)
  have n: "0 < n" using present unfolding n_def by (rule count_pos)
  have n1: "distinct (map id (comments s)) \<longrightarrow> n = 1"
    using present unfolding n_def by (simp add: count_distinct)
  have e1: "f = Name \<longrightarrow> ename (setEditField f v (ov i)) = Some v \<and>
               ebody (setEditField f v (ov i)) = (case ov i of None \<Rightarrow> None | Some e \<Rightarrow> ebody e)"
    by (cases "ov i") (simp_all add: setEditField_def)
  have e2: "f = Body \<longrightarrow> ebody (setEditField f v (ov i)) = Some v \<and>
               ename (setEditField f v (ov i)) = (case ov i of None \<Rightarrow> None | Some e \<Rightarrow> ename e)"
    by (cases "ov i") (simp_all add: setEditField_def)
  have o: "j \<noteq> i \<longrightarrow> ov' j = ov j" by (simp add: ov'_def)
  have "comments (reload s' (Response True (Some cd)) (Response True (Some pd))) = commentsWithEdits cd ov'"
    by (simp add: reload_def fetchData_ok s'_def initial_def parseSaved_def)
  then have c': "c' = applyEdit ov' (cd ! k)"
    using fetched by (simp add: c'_def commentsWithEdits_def)
  have r: "id c' = i \<and>
            (f = Name \<longrightarrow> name c' = v \<and>
               body c' = orElse (case ov i of None \<Rightarrow> None | Some e \<Rightarrow> ebody e) (body (cd ! k))) \<and>
            (f = Body \<longrightarrow> body c' = v \<and>
               name c' = orElse (case ov i of None \<Rightarrow> None | Some e \<Rightarrow> ename e) (name (cd ! k)))"
    unfolding c' ov'_def using applyEdit_saved[OF v fetched(2), of ov f] fetched(2)
    by (cases f) simp_all
  show ?thesis
    using save n n1 e1 e2 o r
    unfolding Let_def v_def[symmetric] ov'_def[symmetric] n_def[symmetric] s'_def[symmetric] c'_def[symmetric]
    by blast
qed

lemma saveEdit_keeps_readable:
  assumes "saveEdit s i f = Inr s'" "comments s \<noteq> [] \<longrightarrow> (\<exists>ov. readSaved (storage s) = Inr ov)"
      and "comments s' \<noteq> []"
  shows "\<exists>ov. readSaved (storage s') = Inr ov"
proof (cases "trim (editValue s) = []")
  case True
  then have "s' = s" using assms(1) by (simp add: saveEdit_def)
  moreover from this have "comments s \<noteq> []" using assms(3) by simp
  ultimately show ?thesis using assms(2) by simp
next
  case False
  show ?thesis
  proof (cases "comments s = []")
    case True
    then have "comments s' = []" using assms(1) False by (auto simp: saveEdit_def)
    then show ?thesis using assms(3) by simp
  next
    case ne: False
    then obtain ov where ov: "readSaved (storage s) = Inr ov" using assms(2) by blast
    have "storage s' = Encoded (ov(i \<mapsto> setEditField f (trim (editValue s)) (ov i))) \<or>
          storage s' = storage s"
      using assms(1) False saveMap_ok[OF ov, of i f "trim (editValue s)" "comments s" "setItems s"]
      by (auto simp: saveEdit_def split: if_splits)
    then show ?thesis using ov by (auto simp: readSaved_def)
  qed
qed

lemma fetchData_readable:
  "comments (fetchData (initial it) rc rp) \<noteq> [] \<Longrightarrow>
     \<exists>ov. readSaved (storage (fetchData (initial it) rc rp)) = Inr ov"
  by (cases it)
     (auto simp: fetchData_def failed_def initial_def Let_def parseSaved_def readSaved_def
           split: response.splits option.splits if_splits)

lemma reachable_readable:
  "reachable s \<Longrightarrow> comments s \<noteq> [] \<Longrightarrow> \<exists>ov. readSaved (storage s) = Inr ov"
proof (induction rule: reachable.induct)
  case (mounted it)
  then show ?case by (simp add: initial_def)
next
  case (loaded it commentsFetch postsFetch)
  then show ?case by (rule fetchData_readable)
next
  case (reloaded s commentsFetch postsFetch)
  then show ?case unfolding reload_def by (intro fetchData_readable) simp
next
  case (searched s t)
  then show ?case by (simp add: setSearchTerm_def split: if_splits)
next
  case (paged s page)
  then show ?case by (simp add: goToPage_def)
next
  case (started s i f currentValue)
  then show ?case by (simp add: startEdit_def)
next
  case (typed s v)
  then show ?case by (simp add: setEditValue_def)
next
  case (cancelled s)
  then show ?case by (simp add: cancelEdit_def)
next
  case (saved s i f s')
  show ?case
    by (rule saveEdit_keeps_readable[OF saved.hyps(2) _ saved.prems]) (use saved.IH in blast)
qed

subsection \<open>Evaluations on examples\<close>

lemma toLowerCase_ALICE: "toLowerCase ''ALICE'' = toLowerCase ''alice''"
  by code_simp

lemma trim_Bob: "trim ''  Bob  '' = ''Bob''"
  by (simp add: trim_def trimStart_def trimEnd_def isWhiteSpace_def)

lemma filtered_example:
  "filteredComments
     [\<lparr>id = 1, name = ''Alice'', email = ''a@x.com'', body = ''hi'', postId = 1\<rparr>,
      \<lparr>id = 2, name = ''Bob'', email = ''b@y.com'', body = ''bye'', postId = 1\<rparr>,
      \<lparr>id = 3, name = ''Carol'', email = ''c@z.com'', body = ''ask alice'', postId = 2\<rparr>] ''ALICE''
   = [\<lparr>id = 1, name = ''Alice'', email = ''a@x.com'', body = ''hi'', postId = 1\<rparr>,
      \<lparr>id = 3, name = ''Carol'', email = ''c@z.com'', body = ''ask alice'', postId = 2\<rparr>]"
  by code_simp

lemma trim_ALICE: "trim ''ALICE'' = ''ALICE''"
  by (simp add: trim_def trimStart_def trimEnd_def isWhiteSpace_def)

lemma trim_alice_padded: "trim '' alice '' = ''alice''"
  by (simp add: trim_def trimStart_def trimEnd_def isWhiteSpace_def)

lemma page_example:
  "paginatedComments (map (\<lambda>i. \<lparr>id = i, name = [], email = [], body = [], postId = 0\<rparr>) [1..12]) 2
    = map (\<lambda>i. \<lparr>id = i, name = [], email = [], body = [], postId = 0\<rparr>) [11..12]"
  by code_simp

section \<open>Merge of the saved edits (C1)\<close>

text \<open>
  C1, as amended. \<open>commentsWithEdits\<close> returns a sequence of the same length in which the
  comment at each position is the fetched one when the mapping has no entry for its id;
  when it has one, \<open>id\<close>, \<open>email\<close> and \<open>postId\<close> keep the fetched values, and \<open>name\<close> and
  \<open>body\<close> take the entry's value where the entry has one that is not the empty string,
  and keep the fetched value where the entry has none or has the empty string. The
  callback builds a new object and assigns to neither the comment nor the mapping, which
  is why the merge is a pure function of its two arguments here.
\<close>

theorem C1_merge_nonempty_overlay_values:
  assumes "k < length cs"
  shows "let c = cs ! k; c' = commentsWithEdits cs ov ! k in
           length (commentsWithEdits cs ov) = length cs \<and>
           (ov (id c) = None \<longrightarrow> c' = c) \<and>
           (ov (id c) = Some e \<longrightarrow>
              id c' = id c \<and> email c' = email c \<and> postId c' = postId c \<and>
              (ename e = Some v \<and> v \<noteq> [] \<longrightarrow> name c' = v) \<and>
              (ename e = None \<or> ename e = Some [] \<longrightarrow> name c' = name c) \<and>
              (ebody e = Some w \<and> w \<noteq> [] \<longrightarrow> body c' = w) \<and>
              (ebody e = None \<or> ebody e = Some [] \<longrightarrow> body c' = body c))"
  using assms
  by (auto simp: commentsWithEdits_def applyEdit_def orElse_def Let_def)

theorem C1_merge_nonempty_overlay_values_witness:
  "(0::nat) < length [\<lparr>id = 7, name = ''Al'', email = ''a@x.com'', body = ''hi'', postId = 1\<rparr>,
                      \<lparr>id = 8, name = ''Bo'', email = ''b@y.com'', body = ''bye'', postId = 1\<rparr>] \<and>
   commentsWithEdits [\<lparr>id = 7, name = ''Al'', email = ''a@x.com'', body = ''hi'', postId = 1\<rparr>,
                      \<lparr>id = 8, name = ''Bo'', email = ''b@y.com'', body = ''bye'', postId = 1\<rparr>]
                     [7 \<mapsto> \<lparr>ename = Some ''Bob'', ebody = Some []\<rparr>]
     = [\<lparr>id = 7, name = ''Bob'', email = ''a@x.com'', body = ''hi'', postId = 1\<rparr>,
        \<lparr>id = 8, name = ''Bo'', email = ''b@y.com'', body = ''bye'', postId = 1\<rparr>]"
proof -
  let ?cs = "[\<lparr>id = 7, name = ''Al'', email = ''a@x.com'', body = ''hi'', postId = 1\<rparr>,
              \<lparr>id = 8, name = ''Bo'', email = ''b@y.com'', body = ''bye'', postId = 1\<rparr>]"
  let ?e = "\<lparr>ename = Some ''Bob'', ebody = Some []\<rparr>"
  have h0: "(0::nat) < length ?cs" by simp
  have h1: "(1::nat) < length ?cs" by simp
  have a: "length (commentsWithEdits ?cs [7 \<mapsto> ?e]) = 2 \<and>
        name (commentsWithEdits ?cs [7 \<mapsto> ?e] ! 0) = ''Bob'' \<and>
        body (commentsWithEdits ?cs [7 \<mapsto> ?e] ! 0) = ''hi'' \<and>
        id (commentsWithEdits ?cs [7 \<mapsto> ?e] ! 0) = 7 \<and>
        email (commentsWithEdits ?cs [7 \<mapsto> ?e] ! 0) = ''a@x.com'' \<and>
        postId (commentsWithEdits ?cs [7 \<mapsto> ?e] ! 0) = 1"
    using C1_merge_nonempty_overlay_values [OF h0, of "[7 \<mapsto> ?e]" ?e "''Bob''" "''x''"]
    by (simp add: Let_def)
  have b: "commentsWithEdits ?cs [7 \<mapsto> ?e] ! 1 = ?cs ! 1"
    using C1_merge_nonempty_overlay_values [OF h1, of "[7 \<mapsto> ?e]" ?e "''Bob''" "''x''"]
    by (simp add: Let_def)
  have "commentsWithEdits ?cs [7 \<mapsto> ?e] =
        [\<lparr>id = 7, name = ''Bob'', email = ''a@x.com'', body = ''hi'', postId = 1\<rparr>,
         \<lparr>id = 8, name = ''Bo'', email = ''b@y.com'', body = ''bye'', postId = 1\<rparr>]"
    using a b by (simp add: list_eq_iff_nth_eq less_Suc_eq numeral_2_eq_2 comment.equality)
  then show ?thesis by simp
qed

text \<open>
  C1 as stated fails for an entry whose \<open>name\<close> is present and empty: \<open>||\<close> falls back to
  the fetched name, which is not replaced.
\<close>

theorem C1_counterexample:
  "[1 \<mapsto> \<lparr>ename = Some [], ebody = None\<rparr>]
     (id \<lparr>id = 1, name = ''A'', email = ''a@x.com'', body = ''hi'', postId = 1\<rparr>)
     = Some \<lparr>ename = Some [], ebody = None\<rparr> \<and>
   ename \<lparr>ename = Some [], ebody = None\<rparr> = Some [] \<and>
   name (commentsWithEdits [\<lparr>id = 1, name = ''A'', email = ''a@x.com'', body = ''hi'', postId = 1\<rparr>]
           [1 \<mapsto> \<lparr>ename = Some [], ebody = None\<rparr>] ! 0) = ''A'' \<and>
   name (commentsWithEdits [\<lparr>id = 1, name = ''A'', email = ''a@x.com'', body = ''hi'', postId = 1\<rparr>]
           [1 \<mapsto> \<lparr>ename = Some [], ebody = None\<rparr>] ! 0) \<noteq> []"
  by (simp add: commentsWithEdits_def applyEdit_def orElse_def)

section \<open>Saving an edit (C2, C3)\<close>

text \<open>
  C2. In every reachable state, let the id occur in the comment list and let the trimmed
  draft be non-empty. Then the storage item is not an unreadable text. Let \<open>ov\<close> be the
  mapping it holds (the empty mapping when there is no item or the item is the empty
  string). Then \<open>saveEdit\<close> returns normally; the field of every comment with that id is
  the trimmed draft; the item becomes the mapping \<open>ov\<close> with the entry of the id updated,
  in which the field is the trimmed draft, the other field is what the prior entry had,
  and every other id keeps its entry; each \<open>setItem\<close> call (one per comment with the id,
  so exactly one when ids are distinct) writes this whole mapping. After a reload whose
  two fetches succeed, every fetched comment with the id carries the trimmed draft in the
  field, and in the other field what the prior entry had saved, if anything. The witness
  saves \<open>Bob\<close> between blanks as the name of comment 7 over a mapping that holds a saved
  body for comment 7 and an entry for comment 8.
\<close>

theorem C2_save_persists_trimmed:
  assumes reach: "reachable s"
      and present: "i \<in> id ` set (comments s)"
      and nonempty: "trim (editValue s) \<noteq> []"
      and fetched: "k < length cd" "id (cd ! k) = i"
  shows "storage s \<noteq> BadText \<and>
        (storage s = Encoded ov \<or>
           (ov = Map.empty \<and> (storage s = NoItem \<or> storage s = EmptyText)) \<longrightarrow>
        (let v = trim (editValue s);
             prior = ov i;
             entry = setEditField f v prior;
             ov' = ov(i \<mapsto> entry);
             n = length (filter (\<lambda>c. id c = i) (comments s));
             s' = s\<lparr>comments := map (\<lambda>c. if id c = i then setField f v c else c) (comments s),
                    storage := Encoded ov',
                    setItems := setItems s @ replicate n ov',
                    editingCell := None, editValue := []\<rparr>;
             c' = comments (reload s' (Response True (Some cd)) (Response True (Some pd))) ! k
         in saveEdit s i f = Inr s' \<and>
            0 < n \<and> (distinct (map id (comments s)) \<longrightarrow> n = 1) \<and>
            (f = Name \<longrightarrow> ename entry = Some v \<and>
               ebody entry = (case prior of None \<Rightarrow> None | Some e \<Rightarrow> ebody e)) \<and>
            (f = Body \<longrightarrow> ebody entry = Some v \<and>
               ename entry = (case prior of None \<Rightarrow> None | Some e \<Rightarrow> ename e)) \<and>
            (j \<noteq> i \<longrightarrow> ov' j = ov j) \<and>
            id c' = i \<and>
            (f = Name \<longrightarrow> name c' = v \<and>
               body c' = orElse (case prior of None \<Rightarrow> None | Some e \<Rightarrow> ebody e) (body (cd ! k))) \<and>
            (f = Body \<longrightarrow> body c' = v \<and>
               name c' = orElse (case prior of None \<Rightarrow> None | Some e \<Rightarrow> ename e) (name (cd ! k)))))"
proof -
  have "comments s \<noteq> []" using present by auto
  then have "\<exists>m. readSaved (storage s) = Inr m"
    using reachable_readable[OF reach] by blast
  then have ok: "storage s \<noteq> BadText" by (auto simp: readSaved_def)
  have main: ?thesis
    if prior: "storage s = Encoded ov \<or>
               (ov = Map.empty \<and> (storage s = NoItem \<or> storage s = EmptyText))"
  proof -
    from prior have ov: "readSaved (storage s) = Inr ov" by (auto simp: readSaved_def)
    show ?thesis
      using ok saveEdit_readable[OF present nonempty ov fetched, of f pd j] by blast
  qed
  show ?thesis
  proof (cases "storage s = Encoded ov \<or>
               (ov = Map.empty \<and> (storage s = NoItem \<or> storage s = EmptyText))")
    case True
    then show ?thesis by (rule main)
  next
    case False
    then show ?thesis using ok by blast
  qed
qed

theorem C2_save_persists_trimmed_witness:
  "trim ''  Bob  '' = ''Bob'' \<and>
   saveEdit ((initial (Encoded [8 \<mapsto> \<lparr>ename = None, ebody = Some ''x''\<rparr>,
                                7 \<mapsto> \<lparr>ename = None, ebody = Some ''old body''\<rparr>]))
               \<lparr>comments := [\<lparr>id = 7, name = ''Al'', email = ''a@x.com'', body = ''old body'', postId = 1\<rparr>,
                             \<lparr>id = 8, name = ''Bo'', email = ''b@y.com'', body = ''x'', postId = 1\<rparr>],
                loading := False,
                editingCell := Some (7, Name), editValue := ''  Bob  ''\<rparr>) 7 Name
     = Inr ((initial (Encoded [8 \<mapsto> \<lparr>ename = None, ebody = Some ''x''\<rparr>,
                                7 \<mapsto> \<lparr>ename = None, ebody = Some ''old body''\<rparr>]))
               \<lparr>comments := [\<lparr>id = 7, name = ''Bob'', email = ''a@x.com'', body = ''old body'', postId = 1\<rparr>,
                             \<lparr>id = 8, name = ''Bo'', email = ''b@y.com'', body = ''x'', postId = 1\<rparr>],
                loading := False,
                storage := Encoded [8 \<mapsto> \<lparr>ename = None, ebody = Some ''x''\<rparr>,
                                    7 \<mapsto> \<lparr>ename = Some ''Bob'', ebody = Some ''old body''\<rparr>],
                setItems := [[8 \<mapsto> \<lparr>ename = None, ebody = Some ''x''\<rparr>,
                              7 \<mapsto> \<lparr>ename = Some ''Bob'', ebody = Some ''old body''\<rparr>]]\<rparr>) \<and>
   comments (reload ((initial (Encoded [8 \<mapsto> \<lparr>ename = None, ebody = Some ''x''\<rparr>,
                                7 \<mapsto> \<lparr>ename = None, ebody = Some ''old body''\<rparr>]))
               \<lparr>storage := Encoded [8 \<mapsto> \<lparr>ename = None, ebody = Some ''x''\<rparr>,
                                    7 \<mapsto> \<lparr>ename = Some ''Bob'', ebody = Some ''old body''\<rparr>]\<rparr>)
              (Response True (Some [\<lparr>id = 7, name = ''Al'', email = ''a@x.com'', body = ''hi'', postId = 1\<rparr>,
                                    \<lparr>id = 8, name = ''Bo'', email = ''b@y.com'', body = ''bye'', postId = 1\<rparr>]))
              (Response True (Some []))) ! 0
     = \<lparr>id = 7, name = ''Bob'', email = ''a@x.com'', body = ''old body'', postId = 1\<rparr>"
proof -
  let ?e8 = "\<lparr>ename = None, ebody = Some ''x''\<rparr>"
  let ?e7 = "\<lparr>ename = None, ebody = Some ''old body''\<rparr>"
  let ?ov = "[8 \<mapsto> ?e8, 7 \<mapsto> ?e7]"
  let ?c7 = "\<lparr>id = 7, name = ''Al'', email = ''a@x.com'', body = ''hi'', postId = 1\<rparr>"
  let ?c8 = "\<lparr>id = 8, name = ''Bo'', email = ''b@y.com'', body = ''bye'', postId = 1\<rparr>"
  let ?s = "(initial (Encoded ?ov))
               \<lparr>comments := [\<lparr>id = 7, name = ''Al'', email = ''a@x.com'', body = ''old body'', postId = 1\<rparr>,
                             \<lparr>id = 8, name = ''Bo'', email = ''b@y.com'', body = ''x'', postId = 1\<rparr>],
                loading := False,
                editingCell := Some (7, Name), editValue := ''  Bob  ''\<rparr>"
  have "reachable (fetchData (initial (Encoded ?ov)) (Response True (Some [?c7, ?c8]))
                     (Response True (Some [])))"
    by (rule reachable.loaded)
  then have "reachable (setEditValue (startEdit (fetchData (initial (Encoded ?ov))
                 (Response True (Some [?c7, ?c8])) (Response True (Some []))) 7 Name ''Al'') ''  Bob  '')"
    by (intro reachable.typed reachable.started)
  then have h0: "reachable ?s"
    by (simp add: fetchData_ok parseSaved_def commentsWithEdits_def applyEdit_def orElse_def
                  initial_def startEdit_def setEditValue_def)
  have h1: "7 \<in> id ` set (comments ?s)" by simp
  have h2: "trim (editValue ?s) \<noteq> []" by (simp add: trim_Bob)
  have h4: "0 < length [?c7, ?c8]" by simp
  have h5: "id ([?c7, ?c8] ! 0) = 7" by simp
  have h6: "storage ?s = Encoded ?ov" by (simp add: initial_def)
  show ?thesis
    using C2_save_persists_trimmed [OF h0 h1 h2 h4 h5, of ?ov Name "[]" 8] h6
    by (simp add: Let_def trim_Bob initial_def setEditField_def setField_def
                  reload_def fetchData_ok parseSaved_def commentsWithEdits_def applyEdit_def
                  orElse_def comment.equality)
qed

text \<open>
  C3. When the trimmed draft is empty, \<open>saveEdit\<close> returns at once: the whole state is the
  one before, so the comment list is unchanged, the storage item is unchanged and no
  \<open>setItem\<close> call is added to the history.
\<close>

theorem C3_save_empty_is_noop:
  assumes "trim (editValue s) = []"
  shows "saveEdit s i f = Inr s \<and>
         (\<forall>s'. saveEdit s i f = Inr s' \<longrightarrow>
            comments s' = comments s \<and> storage s' = storage s \<and> setItems s' = setItems s)"
  using assms by (simp add: saveEdit_def)

theorem C3_save_empty_is_noop_witness:
  "trim ''   '' = [] \<and>
   saveEdit ((initial NoItem)\<lparr>comments := [\<lparr>id = 7, name = ''Al'', email = ''a@x.com'', body = ''hi'', postId = 1\<rparr>],
                               editingCell := Some (7, Name), editValue := ''   ''\<rparr>) 7 Name
   = Inr ((initial NoItem)\<lparr>comments := [\<lparr>id = 7, name = ''Al'', email = ''a@x.com'', body = ''hi'', postId = 1\<rparr>],
                               editingCell := Some (7, Name), editValue := ''   ''\<rparr>)"
proof -
  let ?s = "(initial NoItem)\<lparr>comments := [\<lparr>id = 7, name = ''Al'', email = ''a@x.com'', body = ''hi'', postId = 1\<rparr>],
                               editingCell := Some (7, Name), editValue := ''   ''\<rparr>"
  have w: "trim ''   '' = []"
    by (simp add: trim_def trimStart_def trimEnd_def isWhiteSpace_def)
  then have h: "trim (editValue ?s) = []" by simp
  show ?thesis
    using w C3_save_empty_is_noop [OF h, of 7 Name] by simp
qed

section \<open>Loading the saved edits at startup (C4)\<close>

text \<open>
  C4, as amended. When the item is missing (\<open>null\<close>) or is the empty string, the saved
  edits are the empty mapping, and a startup whose two fetches succeed shows the fetched
  comments as they are. When the item is a text that does not parse, \<open>JSON.parse\<close> throws
  inside the \<open>try\<close> block of \<open>fetchData\<close>: the exception is caught there, and the startup
  ends in the error state with the message of a failed load and with no comments.
\<close>

theorem C4_load_overlay:
  "parseSaved NoItem = Inr Map.empty \<and> parseSaved EmptyText = Inr Map.empty \<and>
   parseSaved BadText = Inl SyntaxError \<and>
   (storage s = NoItem \<or> storage s = EmptyText \<longrightarrow>
      fetchData s (Response True (Some cd)) (Response True (Some pd))
        = s\<lparr>comments := cd, posts := pd, loading := False\<rparr>) \<and>
   (storage s = BadText \<longrightarrow>
      fetchData s (Response True (Some cd)) (Response True (Some pd))
        = s\<lparr>loading := False, error := Some errorMessage\<rparr>)"
  by (auto simp: fetchData_ok parseSaved_def commentsWithEdits_empty)

theorem C4_load_overlay_witness:
  "storage (initial BadText) = BadText \<and>
   fetchData (initial BadText)
      (Response True (Some [\<lparr>id = 1, name = ''A'', email = ''a@x.com'', body = ''hi'', postId = 1\<rparr>]))
      (Response True (Some [\<lparr>pid = 1, title = ''T''\<rparr>]))
     = (initial BadText)\<lparr>loading := False, error := Some ''Failed to load data. Please try again.''\<rparr> \<and>
   storage (initial NoItem) = NoItem \<and>
   fetchData (initial NoItem)
      (Response True (Some [\<lparr>id = 1, name = ''A'', email = ''a@x.com'', body = ''hi'', postId = 1\<rparr>]))
      (Response True (Some [\<lparr>pid = 1, title = ''T''\<rparr>]))
     = (initial NoItem)\<lparr>comments := [\<lparr>id = 1, name = ''A'', email = ''a@x.com'', body = ''hi'', postId = 1\<rparr>],
                        posts := [\<lparr>pid = 1, title = ''T''\<rparr>], loading := False\<rparr>"
  using C4_load_overlay [of "initial BadText"
          "[\<lparr>id = 1, name = ''A'', email = ''a@x.com'', body = ''hi'', postId = 1\<rparr>]"
          "[\<lparr>pid = 1, title = ''T''\<rparr>]"]
        C4_load_overlay [of "initial NoItem"
          "[\<lparr>id = 1, name = ''A'', email = ''a@x.com'', body = ''hi'', postId = 1\<rparr>]"
          "[\<lparr>pid = 1, title = ''T''\<rparr>]"]
  by (simp add: initial_def errorMessage_def)

text \<open>
  C4 as stated fails on an item that does not parse: loading it does not give the empty
  mapping, and the user sees the error message instead of the fetched comment.
\<close>

theorem C4_counterexample:
  "parseSaved BadText \<noteq> Inr Map.empty \<and>
   error (fetchData (initial BadText)
            (Response True (Some [\<lparr>id = 1, name = ''A'', email = ''a@x.com'', body = ''hi'', postId = 1\<rparr>]))
            (Response True (Some [\<lparr>pid = 1, title = ''T''\<rparr>])))
     = Some ''Failed to load data. Please try again.'' \<and>
   comments (fetchData (initial BadText)
            (Response True (Some [\<lparr>id = 1, name = ''A'', email = ''a@x.com'', body = ''hi'', postId = 1\<rparr>]))
            (Response True (Some [\<lparr>pid = 1, title = ''T''\<rparr>]))) = []"
  by (simp add: fetchData_ok parseSaved_def initial_def errorMessage_def)

section \<open>Filter (C5, C10)\<close>

text \<open>
  C5. When the trimmed term is empty the filter returns the sequence unchanged. Otherwise
  it returns the sequence filtered, in its order, by the predicate: the lower-cased
  email, name or body contains the lower-cased term as a contiguous substring. The
  result is always a subsequence of the input. Two terms with the same lower-case form
  give the same result, so \<open>ALICE\<close> and \<open>alice\<close> do.
\<close>

theorem C5_filter:
  "(trim t = [] \<longrightarrow> filteredComments cs t = cs) \<and>
   (trim t \<noteq> [] \<longrightarrow>
      filteredComments cs t =
        filter (\<lambda>c. \<exists>p q. toLowerCase (email c) = p @ toLowerCase t @ q \<or>
                           toLowerCase (name c) = p @ toLowerCase t @ q \<or>
                           toLowerCase (body c) = p @ toLowerCase t @ q) cs) \<and>
   subseq (filteredComments cs t) cs \<and>
   (toLowerCase t = toLowerCase u \<longrightarrow> filteredComments cs t = filteredComments cs u) \<and>
   filteredComments cs ''ALICE'' = filteredComments cs ''alice''"
proof -
  have a: "trim t = [] \<longrightarrow> filteredComments cs t = cs"
    by (simp add: filteredComments_def)
  have m: "matches (toLowerCase t) =
        (\<lambda>c. \<exists>p q. toLowerCase (email c) = p @ toLowerCase t @ q \<or>
                    toLowerCase (name c) = p @ toLowerCase t @ q \<or>
                    toLowerCase (body c) = p @ toLowerCase t @ q)"
    by (rule ext) (rule matches_iff)
  have b: "trim t \<noteq> [] \<longrightarrow>
      filteredComments cs t =
        filter (\<lambda>c. \<exists>p q. toLowerCase (email c) = p @ toLowerCase t @ q \<or>
                           toLowerCase (name c) = p @ toLowerCase t @ q \<or>
                           toLowerCase (body c) = p @ toLowerCase t @ q) cs"
    unfolding filteredComments_def Let_def m by simp
  have c: "subseq (filteredComments cs t) cs"
    by (simp add: filteredComments_def)
  have d: "toLowerCase t = toLowerCase u \<longrightarrow> filteredComments cs t = filteredComments cs u"
    using filtered_cong by blast
  have e: "filteredComments cs ''ALICE'' = filteredComments cs ''alice''"
    using toLowerCase_ALICE by (rule filtered_cong)
  from a b c d e show ?thesis by blast
qed

theorem C5_filter_witness:
  "trim ''ALICE'' \<noteq> [] \<and>
   filteredComments
     [\<lparr>id = 1, name = ''Alice'', email = ''a@x.com'', body = ''hi'', postId = 1\<rparr>,
      \<lparr>id = 2, name = ''Bob'', email = ''b@y.com'', body = ''bye'', postId = 1\<rparr>,
      \<lparr>id = 3, name = ''Carol'', email = ''c@z.com'', body = ''ask alice'', postId = 2\<rparr>] ''ALICE''
   = [\<lparr>id = 1, name = ''Alice'', email = ''a@x.com'', body = ''hi'', postId = 1\<rparr>,
      \<lparr>id = 3, name = ''Carol'', email = ''c@z.com'', body = ''ask alice'', postId = 2\<rparr>] \<and>
   filteredComments
     [\<lparr>id = 1, name = ''Alice'', email = ''a@x.com'', body = ''hi'', postId = 1\<rparr>,
      \<lparr>id = 2, name = ''Bob'', email = ''b@y.com'', body = ''bye'', postId = 1\<rparr>,
      \<lparr>id = 3, name = ''Carol'', email = ''c@z.com'', body = ''ask alice'', postId = 2\<rparr>] ''alice''
   = [\<lparr>id = 1, name = ''Alice'', email = ''a@x.com'', body = ''hi'', postId = 1\<rparr>,
      \<lparr>id = 3, name = ''Carol'', email = ''c@z.com'', body = ''ask alice'', postId = 2\<rparr>]"
proof -
  let ?cs = "[\<lparr>id = 1, name = ''Alice'', email = ''a@x.com'', body = ''hi'', postId = 1\<rparr>,
      \<lparr>id = 2, name = ''Bob'', email = ''b@y.com'', body = ''bye'', postId = 1\<rparr>,
      \<lparr>id = 3, name = ''Carol'', email = ''c@z.com'', body = ''ask alice'', postId = 2\<rparr>]"
  have h: "trim ''ALICE'' \<noteq> []" by (simp add: trim_ALICE)
  have "filteredComments ?cs ''ALICE'' = filteredComments ?cs ''alice''"
    using C5_filter [of "''ALICE''" ?cs "''alice''"] by (elim conjE)
  then show ?thesis using h filtered_example by simp
qed

text \<open>
  C10. When the trimmed term is not empty, the term is its trimmed form between a run
  \<open>l\<close> of leading and a run \<open>r\<close> of trailing white space, lower-casing leaves the two runs
  in place, and every retained comment has a field whose lower-case form contains the
  padded text \<open>l @ toLowerCase (trim t) @ r\<close>. On a comment named \<open>alice\<close> the padded term
  and the bare term give different results.
\<close>

theorem C10_untrimmed_term:
  assumes "trim t \<noteq> []"
  shows "(\<exists>l r. t = l @ trim t @ r \<and> (\<forall>ch\<in>set (l @ r). isWhiteSpace ch) \<and>
            toLowerCase t = l @ toLowerCase (trim t) @ r \<and>
            (\<forall>c\<in>set (filteredComments cs t).
               \<exists>p q. toLowerCase (email c) = p @ l @ toLowerCase (trim t) @ r @ q \<or>
                     toLowerCase (name c) = p @ l @ toLowerCase (trim t) @ r @ q \<or>
                     toLowerCase (body c) = p @ l @ toLowerCase (trim t) @ r @ q)) \<and>
         filteredComments [\<lparr>id = 1, name = ''alice'', email = ''a@x.com'', body = ''hi'', postId = 1\<rparr>] '' alice ''
           \<noteq> filteredComments [\<lparr>id = 1, name = ''alice'', email = ''a@x.com'', body = ''hi'', postId = 1\<rparr>] ''alice''"
proof -
  obtain l r where lr: "t = l @ trim t @ r" "\<forall>c\<in>set l. isWhiteSpace c" "\<forall>c\<in>set r. isWhiteSpace c"
    using trim_decomp by blast
  have low: "toLowerCase t = l @ toLowerCase (trim t) @ r"
    using lr toLowerCase_append toLowerCase_ws by metis
  have "\<forall>c\<in>set (filteredComments cs t).
               \<exists>p q. toLowerCase (email c) = p @ l @ toLowerCase (trim t) @ r @ q \<or>
                     toLowerCase (name c) = p @ l @ toLowerCase (trim t) @ r @ q \<or>
                     toLowerCase (body c) = p @ l @ toLowerCase (trim t) @ r @ q"
    using assms by (auto simp: filteredComments_def matches_iff low)
  with lr low have "\<exists>l r. t = l @ trim t @ r \<and> (\<forall>ch\<in>set (l @ r). isWhiteSpace ch) \<and>
            toLowerCase t = l @ toLowerCase (trim t) @ r \<and>
            (\<forall>c\<in>set (filteredComments cs t).
               \<exists>p q. toLowerCase (email c) = p @ l @ toLowerCase (trim t) @ r @ q \<or>
                     toLowerCase (name c) = p @ l @ toLowerCase (trim t) @ r @ q \<or>
                     toLowerCase (body c) = p @ l @ toLowerCase (trim t) @ r @ q)"
    by (intro exI[of _ l] exI[of _ r]) auto
  moreover have "filteredComments [\<lparr>id = 1, name = ''alice'', email = ''a@x.com'', body = ''hi'', postId = 1\<rparr>] '' alice ''
           \<noteq> filteredComments [\<lparr>id = 1, name = ''alice'', email = ''a@x.com'', body = ''hi'', postId = 1\<rparr>] ''alice''"
    by code_simp
  ultimately show ?thesis by blast
qed

theorem C10_untrimmed_term_witness:
  "trim '' alice '' \<noteq> [] \<and>
   filteredComments [\<lparr>id = 1, name = ''alice'', email = ''a@x.com'', body = ''hi'', postId = 1\<rparr>] '' alice ''
     \<noteq> filteredComments [\<lparr>id = 1, name = ''alice'', email = ''a@x.com'', body = ''hi'', postId = 1\<rparr>] ''alice''"
proof -
  have h: "trim '' alice '' \<noteq> []" by (simp add: trim_alice_padded)
  show ?thesis
    using h C10_untrimmed_term [OF h, of "[\<lparr>id = 1, name = ''alice'', email = ''a@x.com'', body = ''hi'', postId = 1\<rparr>]"]
    by blast
qed

section \<open>Pages (C6, C7, C9)\<close>

text \<open>
  C6. For a page number from 1 on, the page is the elements of the filtered sequence at
  the indices from \<open>(p - 1) * 10\<close> up to \<open>p * 10\<close> exclusive, both clamped to the length.
  The pages 1 to \<open>totalPages\<close>, concatenated in order, are the filtered sequence, and so
  are the pages 1 to any larger number.
\<close>

theorem C6_pagination:
  "(1 \<le> p \<longrightarrow>
      paginatedComments fs p =
        map ((!) fs) [min (nat ((p - 1) * 10)) (length fs) ..< min (nat (p * 10)) (length fs)]) \<and>
   concat (map (paginatedComments fs) [1..totalPages fs]) = fs \<and>
   (totalPages fs \<le> n \<longrightarrow> concat (map (paginatedComments fs) [1..n]) = fs)"
proof -
  have "paginatedComments fs p =
        map ((!) fs) [min (nat ((p - 1) * 10)) (length fs) ..< min (nat (p * 10)) (length fs)]"
    if p: "1 \<le> p"
  proof -
    have e: "10 * nat (p - 1) = nat ((p - 1) * 10)" "nat ((p - 1) * 10) + 10 = nat (p * 10)"
      using p by (simp_all add: nat_mult_distrib)
    show ?thesis
      using paginated_take_drop[OF p, of fs] take_drop_nth[of 10 "10 * nat (p - 1)" fs]
      by (simp only: e)
  qed
  moreover have "concat (map (paginatedComments fs) [1..totalPages fs]) = fs"
    by (rule concat_all_pages) simp
  moreover have "totalPages fs \<le> n \<longrightarrow> concat (map (paginatedComments fs) [1..n]) = fs"
    using concat_all_pages by blast
  ultimately show ?thesis by blast
qed

theorem C6_pagination_witness:
  "(1::int) \<le> 2 \<and>
   totalPages (map (\<lambda>i. \<lparr>id = i, name = [], email = [], body = [], postId = 0\<rparr>) [1..12]) = 2 \<and>
   paginatedComments (map (\<lambda>i. \<lparr>id = i, name = [], email = [], body = [], postId = 0\<rparr>) [1..12]) 2
    = map (\<lambda>i. \<lparr>id = i, name = [], email = [], body = [], postId = 0\<rparr>) [11..12] \<and>
   paginatedComments (map (\<lambda>i. \<lparr>id = i, name = [], email = [], body = [], postId = 0\<rparr>) [1..12]) 2
    = map ((!) (map (\<lambda>i. \<lparr>id = i, name = [], email = [], body = [], postId = 0\<rparr>) [1..12])) [10..<12] \<and>
   paginatedComments (map (\<lambda>i. \<lparr>id = i, name = [], email = [], body = [], postId = 0\<rparr>) [1..12]) 1 @
   paginatedComments (map (\<lambda>i. \<lparr>id = i, name = [], email = [], body = [], postId = 0\<rparr>) [1..12]) 2
    = map (\<lambda>i. \<lparr>id = i, name = [], email = [], body = [], postId = 0\<rparr>) [1..12]"
proof -
  let ?fs = "map (\<lambda>i. \<lparr>id = i, name = [], email = [], body = [], postId = 0\<rparr>) [1..12]"
  have t: "totalPages ?fs = 2" by (simp add: totalPages_div)
  have "concat (map (paginatedComments ?fs) [1..totalPages ?fs]) = ?fs"
    using C6_pagination [of 2 ?fs 2] by blast
  then have "paginatedComments ?fs 1 @ paginatedComments ?fs 2 = ?fs"
    unfolding t by (simp add: upto_rec1)
  moreover have "paginatedComments ?fs 2 = map ((!) ?fs) [10..<12]"
    using C6_pagination [of 2 ?fs 2] by simp
  ultimately show ?thesis using t page_example by simp
qed

text \<open>
  C7. Setting a search term different from the stored one stores it and sets the current
  page to 1. \<open>goToPage\<close> sets the current page to \<open>max 1 (min p totalPages)\<close>: when there is
  at least one page this lies between 1 and \<open>totalPages\<close>, is \<open>p\<close> itself for \<open>p\<close> in that
  range, 1 for smaller \<open>p\<close> and \<open>totalPages\<close> for larger \<open>p\<close>.
\<close>

theorem C7_page_reset_and_clamp:
  "(t \<noteq> searchTerm s \<longrightarrow>
      searchTerm (setSearchTerm s t) = t \<and> currentPage (setSearchTerm s t) = 1) \<and>
   (let n = totalPages (filteredComments (comments s) (searchTerm s));
        q = currentPage (goToPage s p)
    in q = max 1 (min p n) \<and>
       (1 \<le> n \<longrightarrow> 1 \<le> q \<and> q \<le> n \<and>
          (1 \<le> p \<and> p \<le> n \<longrightarrow> q = p) \<and> (p < 1 \<longrightarrow> q = 1) \<and> (n < p \<longrightarrow> q = n)))"
  by (auto simp: setSearchTerm_def goToPage_def Let_def)

theorem C7_page_reset_and_clamp_witness:
  "''a'' \<noteq> searchTerm ((initial NoItem)\<lparr>comments := replicate 25 \<lparr>id = 1, name = ''A'', email = ''a@x.com'', body = ''hi'', postId = 1\<rparr>, currentPage := 5\<rparr>) \<and>
   currentPage (setSearchTerm ((initial NoItem)\<lparr>comments := replicate 25 \<lparr>id = 1, name = ''A'', email = ''a@x.com'', body = ''hi'', postId = 1\<rparr>, currentPage := 5\<rparr>) ''a'') = 1 \<and>
   currentPage (goToPage ((initial NoItem)\<lparr>comments := replicate 25 \<lparr>id = 1, name = ''A'', email = ''a@x.com'', body = ''hi'', postId = 1\<rparr>, currentPage := 5\<rparr>) 7) = 3"
  using C7_page_reset_and_clamp [of "''a''" "(initial NoItem)\<lparr>comments := replicate 25 \<lparr>id = 1, name = ''A'', email = ''a@x.com'', body = ''hi'', postId = 1\<rparr>, currentPage := 5\<rparr>" 7]
  by (simp add: Let_def initial_def totalPages_div filteredComments_def trim_def trimStart_def trimEnd_def)

text \<open>
  C9, as amended. At most 5 page buttons are rendered. With at most one page none is
  rendered. With 2 to 5 pages all pages are shown. With more than 5 pages the window is
  \<open>[1, 5]\<close> when the current page is one of the first 3, it is
  \<open>[totalPages - 4, totalPages]\<close> when the current page is \<open>totalPages - 2\<close> or later, and
  it is \<open>[current - 2, current + 2]\<close> in all other cases.
\<close>

theorem C9_page_window:
  "length (pageButtons n c) \<le> 5 \<and>
   (n \<le> 1 \<longrightarrow> pageButtons n c = []) \<and>
   (1 < n \<and> n \<le> 5 \<longrightarrow> pageButtons n c = [1..n]) \<and>
   (5 < n \<and> c \<le> 3 \<longrightarrow> pageButtons n c = [1..5]) \<and>
   (5 < n \<and> n - 2 \<le> c \<longrightarrow> pageButtons n c = [n - 4..n]) \<and>
   (5 < n \<and> 3 < c \<and> c < n - 2 \<longrightarrow> pageButtons n c = [c - 2..c + 2])"
  by (auto simp: pageButtons_def windowButtons_def pageWindow_def upto_shift Let_def min_def
                 add.commute)

theorem C9_page_window_witness:
  "(5::int) < 20 \<and> (3::int) < 4 \<and> (4::int) < 20 - 2 \<and> pageButtons 20 4 = [2, 3, 4, 5, 6] \<and>
   (20::int) - 2 \<le> 19 \<and> pageButtons 20 19 = [16, 17, 18, 19, 20] \<and>
   (2::int) \<le> 3 \<and> pageButtons 20 2 = [1, 2, 3, 4, 5] \<and>
   (1::int) < 3 \<and> (3::int) \<le> 5 \<and> pageButtons 3 1 = [1, 2, 3] \<and>
   (1::int) \<le> 1 \<and> pageButtons 1 1 = []"
  using C9_page_window [of 20 4] C9_page_window [of 20 19] C9_page_window [of 20 2]
        C9_page_window [of 3 1] C9_page_window [of 1 1]
  by (simp add: upto_rec1)

text \<open>
  C9 as stated fails with 20 pages: on page 4, one of the first 5, the first button is
  page 2, and on page 17, one of the last 5, the last button is page 19. It also fails
  with one page, which is at most 5 pages: the button of page 1 is not rendered.
\<close>

theorem C9_counterexample:
  "(5::int) < 20 \<and> (4::int) \<le> 5 \<and> pageButtons 20 4 = [2, 3, 4, 5, 6] \<and>
   hd (pageButtons 20 4) \<noteq> 1 \<and>
   (20::int) - 4 \<le> 17 \<and> pageButtons 20 17 = [15, 16, 17, 18, 19] \<and>
   last (pageButtons 20 17) \<noteq> 20 \<and>
   (1::int) \<le> 5 \<and> 1 \<notin> set (pageButtons 1 1)"
  by (simp add: pageButtons_def windowButtons_def pageWindow_def upto_shift upto_rec1)

section \<open>The startup fetch (C8)\<close>

text \<open>
  C8. If either fetch fails (its promise rejects, its status is not a success, or its
  body does not parse), whatever the other one does, \<open>fetchData\<close> ends in the state that
  two rejected fetches give: the error message is set, loading is over, and the comments
  and posts are the ones from before, so nothing of a successful response is used.
\<close>

theorem C8_no_partial_success:
  assumes "rc = Rejected \<or> (\<exists>b. rc = Response False b) \<or> (\<exists>ok. rc = Response ok None) \<or>
           rp = Rejected \<or> (\<exists>b. rp = Response False b) \<or> (\<exists>ok. rp = Response ok None)"
  shows "fetchData s rc rp = fetchData s Rejected Rejected \<and>
         fetchData s rc rp = s\<lparr>loading := False, error := Some errorMessage\<rparr> \<and>
         comments (fetchData s rc rp) = comments s \<and>
         posts (fetchData s rc rp) = posts s"
  using assms
  by (auto simp: fetchData_def failed_def Let_def split: response.splits option.splits sum.splits)

theorem C8_no_partial_success_witness:
  "error (fetchData (initial NoItem)
      (Response False (Some [\<lparr>id = 1, name = ''A'', email = ''a@x.com'', body = ''hi'', postId = 1\<rparr>]))
      (Response True (Some [\<lparr>pid = 1, title = ''T''\<rparr>])))
     = Some ''Failed to load data. Please try again.'' \<and>
   loading (fetchData (initial NoItem)
      (Response False (Some [\<lparr>id = 1, name = ''A'', email = ''a@x.com'', body = ''hi'', postId = 1\<rparr>]))
      (Response True (Some [\<lparr>pid = 1, title = ''T''\<rparr>]))) = False \<and>
   comments (fetchData (initial NoItem)
      (Response False (Some [\<lparr>id = 1, name = ''A'', email = ''a@x.com'', body = ''hi'', postId = 1\<rparr>]))
      (Response True (Some [\<lparr>pid = 1, title = ''T''\<rparr>]))) = [] \<and>
   posts (fetchData (initial NoItem)
      (Response False (Some [\<lparr>id = 1, name = ''A'', email = ''a@x.com'', body = ''hi'', postId = 1\<rparr>]))
      (Response True (Some [\<lparr>pid = 1, title = ''T''\<rparr>]))) = []"
proof -
  let ?rc = "Response False (Some [\<lparr>id = 1, name = ''A'', email = ''a@x.com'', body = ''hi'', postId = 1\<rparr>])"
  let ?rp = "Response True (Some [\<lparr>pid = 1, title = ''T''\<rparr>])"
  have h: "?rc = Rejected \<or> (\<exists>b. ?rc = Response False b) \<or> (\<exists>ok. ?rc = Response ok None) \<or>
           ?rp = Rejected \<or> (\<exists>b. ?rp = Response False b) \<or> (\<exists>ok. ?rp = Response ok None)"
    by simp
  have "fetchData (initial NoItem) ?rc ?rp
          = (initial NoItem)\<lparr>loading := False, error := Some errorMessage\<rparr>"
    using C8_no_partial_success [OF h, of "initial NoItem"] by (elim conjE)
  then show ?thesis by (simp add: initial_def errorMessage_def)
qed

end
